theory Spec2Isabelle
  imports Main "HOL-Library.Word"
begin

section \<open>The introspected guest, as vmi\_demo.c sees it through LibVMI\<close>

text \<open>
  The program of \<^verbatim>\<open>src/vmi_demo.c\<close> reads a Windows guest through the LibVMI library.
  LibVMI itself is not part of the repository, so a session is modelled by what its entry
  points answer: every entry point either fails (\<^verbatim>\<open>VMI_FAILURE\<close>, or a \<^verbatim>\<open>NULL\<close> string) or
  returns a value, which is a partial map from the argument. One pass of the program is
  modelled against one snapshot of the guest: the same read gives the same answer.

  \<^verbatim>\<open>addr_t\<close> and \<^verbatim>\<open>size_t\<close> are 64-bit unsigned, \<^verbatim>\<open>uint32_t\<close> is 32-bit unsigned, and
  \<^verbatim>\<open>vmi_pid_t\<close> is LibVMI's \<^verbatim>\<open>int32_t\<close>: a 32-bit word that the comparisons of the program
  read as a signed value.
\<close>

type_synonym addr_t = "64 word"
type_synonym size_t = "64 word"
type_synonym uint32_t = "32 word"
type_synonym vmi_pid_t = "32 word"

record vmi_instance =
  get_offset :: "string \<rightharpoonup> size_t"
  read_addr_ksym :: "string \<rightharpoonup> addr_t"
  read_32_va :: "addr_t \<rightharpoonup> uint32_t"
  read_str_va :: "addr_t \<rightharpoonup> string"
  read_addr_va :: "addr_t \<rightharpoonup> addr_t"

text \<open>
  The global \<^verbatim>\<open>g_vmi\<close> is a handle that is \<^verbatim>\<open>NULL\<close> or an open session. The LibVMI entry
  points take the handle; on a \<^verbatim>\<open>NULL\<close> handle they fail. (\<^verbatim>\<open>main\<close> calls them only with an
  open session.)
\<close>

definition vmi_get_offset :: "vmi_instance option \<Rightarrow> string \<Rightarrow> size_t option" where
  "vmi_get_offset g offset_name = (case g of None \<Rightarrow> None | Some vmi \<Rightarrow> get_offset vmi offset_name)"

definition vmi_read_addr_ksym :: "vmi_instance option \<Rightarrow> string \<Rightarrow> addr_t option" where
  "vmi_read_addr_ksym g symbol = (case g of None \<Rightarrow> None | Some vmi \<Rightarrow> read_addr_ksym vmi symbol)"

definition vmi_read_32_va :: "vmi_instance option \<Rightarrow> addr_t \<Rightarrow> uint32_t option" where
  "vmi_read_32_va g a = (case g of None \<Rightarrow> None | Some vmi \<Rightarrow> read_32_va vmi a)"

definition vmi_read_str_va :: "vmi_instance option \<Rightarrow> addr_t \<Rightarrow> string option" where
  "vmi_read_str_va g a = (case g of None \<Rightarrow> None | Some vmi \<Rightarrow> read_str_va vmi a)"

definition vmi_read_addr_va :: "vmi_instance option \<Rightarrow> addr_t \<Rightarrow> addr_t option" where
  "vmi_read_addr_va g a = (case g of None \<Rightarrow> None | Some vmi \<Rightarrow> read_addr_va vmi a)"

datatype demo_error_t = DEMO_SUCCESS | DEMO_ERROR_INIT | DEMO_ERROR_PROCESS

text \<open>
  What the program prints, one constructor for each \<^verbatim>\<open>printf\<close> site (a block of constant
  lines printed together is one constructor), carrying the values that are formatted.
  The banner's time stamp is not modelled.
\<close>

datatype out =
    Out_Banner string
  | Out_Init_Error string
  | Out_Init_Ok string
  | Out_Init_Help string
  | Out_Starting
  | Out_Process_Header
  | Out_Offsets_Missing
  | Out_Head_Missing
  | Out_Process vmi_pid_t string addr_t
  | Out_Process_Total uint32_t
  | Out_Process_Failed
  | Out_Module_Header
  | Out_Module_Process vmi_pid_t string
  | Out_Module_Access uint32_t
  | Out_Module_Total uint32_t
  | Out_Module_Failed
  | Out_Thread_Header
  | Out_Thread_Process vmi_pid_t string
  | Out_Thread_Pointer int addr_t
  | Out_Thread_Estimate uint32_t
  | Out_Thread_Accessible
  | Out_Thread_Total uint32_t
  | Out_Thread_Failed

section \<open>get\_offset\_safe\<close>

definition get_offset_safe :: "vmi_instance option \<Rightarrow> string \<Rightarrow> size_t" where
  "get_offset_safe g offset_name =
     (case vmi_get_offset g offset_name of None \<Rightarrow> 0 | Some offset \<Rightarrow> offset)"

section \<open>enumerate\_processes\<close>

text \<open>
  The part of the loop body before the label \<^verbatim>\<open>next_process\<close>, at the node base
  \<^verbatim>\<open>current_process\<close>: it reads the pid, then the name, and prints a line and counts the
  process when both reads succeeded. It returns the new \<^verbatim>\<open>process_count\<close> and output.
\<close>

definition process_node ::
  "vmi_instance option \<Rightarrow> size_t \<Rightarrow> size_t \<Rightarrow> addr_t \<Rightarrow> uint32_t \<times> out list \<Rightarrow> uint32_t \<times> out list"
where
  "process_node g pid_offset pname_offset current_process acc =
     (case vmi_read_32_va g (current_process + pid_offset) of
        None \<Rightarrow> acc
      | Some pid \<Rightarrow>
          (case vmi_read_str_va g (current_process + pname_offset) of
             None \<Rightarrow> acc
           | Some proc_name \<Rightarrow>
               (fst acc + 1, snd acc @ [Out_Process pid proc_name current_process])))"

text \<open>
  The \<^verbatim>\<open>do ... while (current_process != list_head)\<close> loop. The argument
  \<^verbatim>\<open>current_process\<close> is the value of the variable when the body is entered (a link-field
  address). The loop has no other exit than a failed link read and the return of the link
  to \<^verbatim>\<open>list_head\<close>, so it need not return: \<open>None\<close> is a walk that runs forever.
\<close>

partial_function (option) process_loop ::
  "vmi_instance option \<Rightarrow> addr_t \<Rightarrow> size_t \<Rightarrow> size_t \<Rightarrow> size_t \<Rightarrow> addr_t \<Rightarrow> uint32_t \<times> out list
     \<Rightarrow> (uint32_t \<times> out list) option"
where
  "process_loop g list_head tasks_offset pid_offset pname_offset current_process acc =
     (let base = current_process - tasks_offset;
          acc' = process_node g pid_offset pname_offset base acc
      in case vmi_read_addr_va g (base + tasks_offset) of
           None \<Rightarrow> Some acc'
         | Some next_link \<Rightarrow>
             if next_link \<noteq> list_head
             then process_loop g list_head tasks_offset pid_offset pname_offset next_link acc'
             else Some acc')"

definition enumerate_processes :: "vmi_instance option \<Rightarrow> (demo_error_t \<times> out list) option" where
  "enumerate_processes g =
     (let tasks_offset = get_offset_safe g ''win_tasks'';
          pid_offset = get_offset_safe g ''win_pid'';
          pname_offset = get_offset_safe g ''win_pname''
      in if tasks_offset = 0 \<or> pid_offset = 0 \<or> pname_offset = 0
         then Some (DEMO_ERROR_PROCESS, [Out_Process_Header, Out_Offsets_Missing])
         else
           (case vmi_read_addr_ksym g ''PsActiveProcessHead'' of
              None \<Rightarrow> Some (DEMO_ERROR_PROCESS, [Out_Process_Header, Out_Head_Missing])
            | Some list_head \<Rightarrow>
                (case process_loop g list_head tasks_offset pid_offset pname_offset list_head
                        (0, [Out_Process_Header]) of
                   None \<Rightarrow> None
                 | Some (process_count, printed) \<Rightarrow>
                     Some (DEMO_SUCCESS, printed @ [Out_Process_Total process_count]))))"

section \<open>enumerate\_modules\<close>

text \<open>
  \<^verbatim>\<open>strstr(haystack, needle)\<close> of the C library, read as the program reads it: whether the
  result is non-\<^verbatim>\<open>NULL\<close>, that is, whether \<open>needle\<close> occurs in \<open>haystack\<close>.
\<close>

fun has_prefix :: "string \<Rightarrow> string \<Rightarrow> bool" where
  "has_prefix [] s = True"
| "has_prefix (n # ns) [] = False"
| "has_prefix (n # ns) (c # cs) = (n = c \<and> has_prefix ns cs)"

fun strstr :: "string \<Rightarrow> string \<Rightarrow> bool" where
  "strstr [] needle = (needle = [])"
| "strstr (c # cs) needle = (has_prefix needle (c # cs) \<or> strstr cs needle)"

text \<open>The loop body before the label \<^verbatim>\<open>next_process_mod\<close>; \<open>fst acc\<close> is \<^verbatim>\<open>total_analyzed\<close>.\<close>

definition module_node ::
  "vmi_instance option \<Rightarrow> size_t \<Rightarrow> size_t \<Rightarrow> addr_t \<Rightarrow> uint32_t \<times> out list \<Rightarrow> uint32_t \<times> out list"
where
  "module_node g pid_offset pname_offset current_process acc =
     (case vmi_read_32_va g (current_process + pid_offset) of
        None \<Rightarrow> acc
      | Some pid \<Rightarrow>
          (case vmi_read_str_va g (current_process + pname_offset) of
             None \<Rightarrow> acc
           | Some proc_name \<Rightarrow>
               if 100 <s pid \<and> (strstr proc_name ''.exe'' \<or> strstr proc_name ''explorer'')
               then (fst acc + 1,
                     snd acc @ [Out_Module_Process pid proc_name] @
                       (case vmi_read_32_va g (current_process + 0x100) of
                          None \<Rightarrow> []
                        | Some test_value \<Rightarrow> [Out_Module_Access test_value]))
               else acc))"

partial_function (option) module_loop ::
  "vmi_instance option \<Rightarrow> addr_t \<Rightarrow> size_t \<Rightarrow> size_t \<Rightarrow> size_t \<Rightarrow> addr_t \<Rightarrow> uint32_t \<times> out list
     \<Rightarrow> (uint32_t \<times> out list) option"
where
  "module_loop g list_head tasks_offset pid_offset pname_offset current_process acc =
     (let base = current_process - tasks_offset;
          acc' = module_node g pid_offset pname_offset base acc
      in case vmi_read_addr_va g (base + tasks_offset) of
           None \<Rightarrow> Some acc'
         | Some next_link \<Rightarrow>
             if next_link \<noteq> list_head \<and> fst acc' < 10
             then module_loop g list_head tasks_offset pid_offset pname_offset next_link acc'
             else Some acc')"

definition enumerate_modules :: "vmi_instance option \<Rightarrow> (demo_error_t \<times> out list) option" where
  "enumerate_modules g =
     (let tasks_offset = get_offset_safe g ''win_tasks'';
          pid_offset = get_offset_safe g ''win_pid'';
          pname_offset = get_offset_safe g ''win_pname''
      in case vmi_read_addr_ksym g ''PsActiveProcessHead'' of
           None \<Rightarrow> Some (DEMO_ERROR_PROCESS, [Out_Module_Header, Out_Head_Missing])
         | Some list_head \<Rightarrow>
             (case module_loop g list_head tasks_offset pid_offset pname_offset list_head
                     (0, [Out_Module_Header]) of
                None \<Rightarrow> None
              | Some (total_analyzed, printed) \<Rightarrow>
                  Some (DEMO_SUCCESS, printed @ [Out_Module_Total total_analyzed])))"

section \<open>enumerate\_threads\<close>

text \<open>
  The body of the inner loop at one \<open>offset\<close>: read a pointer-sized word of the node and
  count it (printing the first three) when it lies strictly between the two bounds;
  \<open>fst acc\<close> is \<^verbatim>\<open>thread_count\<close>.
\<close>

definition thread_probe ::
  "vmi_instance option \<Rightarrow> addr_t \<Rightarrow> int \<Rightarrow> uint32_t \<times> out list \<Rightarrow> uint32_t \<times> out list"
where
  "thread_probe g current_process offset acc =
     (case vmi_read_addr_va g (current_process + word_of_int offset) of
        None \<Rightarrow> acc
      | Some potential_thread_ptr \<Rightarrow>
          if 0xfffff80000000000 < potential_thread_ptr
             \<and> potential_thread_ptr < 0xffffffffffffffff
          then (fst acc + 1,
                if fst acc + 1 \<le> 3
                then snd acc @ [Out_Thread_Pointer offset potential_thread_ptr]
                else snd acc)
          else acc)"

text \<open>
  The inner loop \<^verbatim>\<open>for (int offset = 0x150; offset < 0x200; offset += 8)\<close>, entered with
  the loop variable \<open>offset\<close>.
\<close>

function thread_scan ::
  "vmi_instance option \<Rightarrow> addr_t \<Rightarrow> int \<Rightarrow> uint32_t \<times> out list \<Rightarrow> uint32_t \<times> out list"
where
  "thread_scan g current_process offset acc =
     (if offset < 0x200
      then thread_scan g current_process (offset + 8) (thread_probe g current_process offset acc)
      else acc)"
  by pat_completeness auto
termination
  by (relation "measure (\<lambda>(g, current_process, offset, acc). nat (0x200 - offset))") auto

text \<open>
  The loop body before the label \<^verbatim>\<open>next_process_thread\<close>; \<open>fst acc\<close> is
  \<^verbatim>\<open>total_processes_analyzed\<close>.
\<close>

definition thread_node ::
  "vmi_instance option \<Rightarrow> size_t \<Rightarrow> size_t \<Rightarrow> addr_t \<Rightarrow> uint32_t \<times> out list \<Rightarrow> uint32_t \<times> out list"
where
  "thread_node g pid_offset pname_offset current_process acc =
     (case vmi_read_32_va g (current_process + pid_offset) of
        None \<Rightarrow> acc
      | Some pid \<Rightarrow>
          (case vmi_read_str_va g (current_process + pname_offset) of
             None \<Rightarrow> acc
           | Some proc_name \<Rightarrow>
               if 4 <s pid \<and> fst acc < 10
               then (let scanned = thread_scan g current_process 0x150
                                     (0, snd acc @ [Out_Thread_Process pid proc_name]);
                         thread_count = fst scanned
                     in (fst acc + 1,
                         snd scanned @
                           [if 0 < thread_count then Out_Thread_Estimate thread_count
                            else Out_Thread_Accessible]))
               else acc))"

partial_function (option) thread_loop ::
  "vmi_instance option \<Rightarrow> addr_t \<Rightarrow> size_t \<Rightarrow> size_t \<Rightarrow> size_t \<Rightarrow> addr_t \<Rightarrow> uint32_t \<times> out list
     \<Rightarrow> (uint32_t \<times> out list) option"
where
  "thread_loop g list_head tasks_offset pid_offset pname_offset current_process acc =
     (let base = current_process - tasks_offset;
          acc' = thread_node g pid_offset pname_offset base acc
      in case vmi_read_addr_va g (base + tasks_offset) of
           None \<Rightarrow> Some acc'
         | Some next_link \<Rightarrow>
             if next_link \<noteq> list_head
             then thread_loop g list_head tasks_offset pid_offset pname_offset next_link acc'
             else Some acc')"

definition enumerate_threads :: "vmi_instance option \<Rightarrow> (demo_error_t \<times> out list) option" where
  "enumerate_threads g =
     (let tasks_offset = get_offset_safe g ''win_tasks'';
          pid_offset = get_offset_safe g ''win_pid'';
          pname_offset = get_offset_safe g ''win_pname''
      in case vmi_read_addr_ksym g ''PsActiveProcessHead'' of
           None \<Rightarrow> Some (DEMO_ERROR_PROCESS, [Out_Thread_Header, Out_Head_Missing])
         | Some list_head \<Rightarrow>
             (case thread_loop g list_head tasks_offset pid_offset pname_offset list_head
                     (0, [Out_Thread_Header]) of
                None \<Rightarrow> None
              | Some (total_processes_analyzed, printed) \<Rightarrow>
                  Some (DEMO_SUCCESS, printed @ [Out_Thread_Total total_processes_analyzed])))"

section \<open>The session and main\<close>

text \<open>
  The state of a run: the global handle \<^verbatim>\<open>g_vmi\<close>, what has been printed, and the handles
  that \<^verbatim>\<open>vmi_destroy\<close> has been called with, in order.
\<close>

record run_state =
  g_vmi :: "vmi_instance option"
  stdout :: "out list"
  destroyed :: "vmi_instance option list"

definition print :: "out list \<Rightarrow> run_state \<Rightarrow> run_state" where
  "print lines s = s\<lparr>stdout := stdout s @ lines\<rparr>"

text \<open>
  \<^verbatim>\<open>vmi_init_complete\<close> is a partial map from the domain name to the session it opens; when
  it fails it leaves \<^verbatim>\<open>g_vmi\<close> as it was.
\<close>

definition initialize_vmi ::
  "(string \<rightharpoonup> vmi_instance) \<Rightarrow> string \<Rightarrow> run_state \<Rightarrow> demo_error_t \<times> run_state"
where
  "initialize_vmi vmi_init_complete domain_name s =
     (case vmi_init_complete domain_name of
        None \<Rightarrow> (DEMO_ERROR_INIT, print [Out_Init_Error domain_name] s)
      | Some vmi \<Rightarrow> (DEMO_SUCCESS, print [Out_Init_Ok domain_name] (s\<lparr>g_vmi := Some vmi\<rparr>)))"

definition cleanup_vmi :: "run_state \<Rightarrow> run_state" where
  "cleanup_vmi s =
     (case g_vmi s of
        None \<Rightarrow> s
      | Some vmi \<Rightarrow> s\<lparr>destroyed := destroyed s @ [g_vmi s], g_vmi := None\<rparr>)"

text \<open>The label \<^verbatim>\<open>cleanup\<close> of \<^verbatim>\<open>main\<close>: release the session and compute the exit status.\<close>

definition cleanup_and_return :: "demo_error_t \<Rightarrow> run_state \<Rightarrow> int \<times> run_state" where
  "cleanup_and_return result s = (if result = DEMO_SUCCESS then 0 else 1, cleanup_vmi s)"

text \<open>
  The control flow of \<^verbatim>\<open>main\<close>, given the behaviour of \<^verbatim>\<open>vmi_init_complete\<close> and the
  argument vector (so \<^verbatim>\<open>argc\<close> is its length), with the three passes it calls as
  parameters. The guest is live, so what a pass finds may differ from what the pass
  before it found: properties of the control flow are stated for any behaviour of the
  passes. The result is the exit status and the final state, or \<open>None\<close> when one of the
  passes never returns.
\<close>

type_synonym pass = "vmi_instance option \<Rightarrow> (demo_error_t \<times> out list) option"

definition main_with ::
  "pass \<Rightarrow> pass \<Rightarrow> pass \<Rightarrow> (string \<rightharpoonup> vmi_instance) \<Rightarrow> string list \<Rightarrow> (int \<times> run_state) option"
where
  "main_with process_pass module_pass thread_pass vmi_init_complete argv =
     (let domain_name = (if 1 < length argv then argv ! 1 else ''win7-vmi'');
          s0 = \<lparr>g_vmi = None, stdout = [Out_Banner domain_name], destroyed = []\<rparr>;
          (result, s1) = initialize_vmi vmi_init_complete domain_name s0
      in if result \<noteq> DEMO_SUCCESS
         then Some (cleanup_and_return result (print [Out_Init_Help domain_name] s1))
         else
           (case process_pass (g_vmi s1) of
              None \<Rightarrow> None
            | Some (result, printed) \<Rightarrow>
                let s2 = print (Out_Starting # printed) s1
                in if result \<noteq> DEMO_SUCCESS
                   then Some (cleanup_and_return result (print [Out_Process_Failed] s2))
                   else
                     (case module_pass (g_vmi s2) of
                        None \<Rightarrow> None
                      | Some (result, printed) \<Rightarrow>
                          let s3 = print printed s2
                          in if result \<noteq> DEMO_SUCCESS
                             then Some (cleanup_and_return result (print [Out_Module_Failed] s3))
                             else
                               (case thread_pass (g_vmi s3) of
                                  None \<Rightarrow> None
                                | Some (result, printed) \<Rightarrow>
                                    let s4 = print printed s3
                                    in if result \<noteq> DEMO_SUCCESS
                                       then Some (cleanup_and_return result
                                                    (print [Out_Thread_Failed] s4))
                                       else Some (cleanup_and_return result s4)))))"

text \<open>
  \<^verbatim>\<open>main\<close> itself: the three passes are \<^verbatim>\<open>enumerate_processes\<close>, \<^verbatim>\<open>enumerate_modules\<close> and
  \<^verbatim>\<open>enumerate_threads\<close>, here all run on one snapshot of the guest.
\<close>

definition main :: "(string \<rightharpoonup> vmi_instance) \<Rightarrow> string list \<Rightarrow> (int \<times> run_state) option" where
  "main vmi_init_complete argv =
     main_with enumerate_processes enumerate_modules enumerate_threads vmi_init_complete argv"

section \<open>Vocabulary of the properties\<close>

text \<open>
  The guest list as a list of link-field addresses: each address holds the next one.
\<close>

fun links :: "vmi_instance option \<Rightarrow> addr_t list \<Rightarrow> bool" where
  "links g (a # b # xs) = (vmi_read_addr_va g a = Some b \<and> links g (b # xs))"
| "links g xs = True"

text \<open>
  A well-formed circular list of \<open>length xs\<close> nodes reachable from \<open>list_head\<close>: the
  link-field addresses are distinct, start with the head, and the last one links back to
  the head.
\<close>

definition circular_list :: "vmi_instance option \<Rightarrow> addr_t \<Rightarrow> addr_t list \<Rightarrow> bool" where
  "circular_list g list_head xs \<longleftrightarrow>
     xs \<noteq> [] \<and> hd xs = list_head \<and> distinct xs \<and> links g xs
     \<and> vmi_read_addr_va g (last xs) = Some list_head"

text \<open>
  A chain of \<open>length xs\<close> nodes from \<open>list_head\<close> that is cut: no link returns to the head,
  and the read of the last node's link field fails.
\<close>

definition cut_list :: "vmi_instance option \<Rightarrow> addr_t \<Rightarrow> addr_t list \<Rightarrow> bool" where
  "cut_list g list_head xs \<longleftrightarrow>
     xs \<noteq> [] \<and> hd xs = list_head \<and> list_head \<notin> set (tl xs) \<and> links g xs
     \<and> vmi_read_addr_va g (last xs) = None"

text \<open>The link reached from address \<open>a\<close> after \<open>k\<close> successful link reads.\<close>

fun follow :: "vmi_instance option \<Rightarrow> nat \<Rightarrow> addr_t \<Rightarrow> addr_t option" where
  "follow g 0 a = Some a"
| "follow g (Suc k) a = (case vmi_read_addr_va g a of None \<Rightarrow> None | Some b \<Rightarrow> follow g k b)"

text \<open>
  The three offsets and the list head that a pass works with: the pass gets past its
  checks with exactly these values.
\<close>

definition resolved ::
  "vmi_instance option \<Rightarrow> addr_t \<Rightarrow> size_t \<Rightarrow> size_t \<Rightarrow> size_t \<Rightarrow> bool"
where
  "resolved g list_head tasks_offset pid_offset pname_offset \<longleftrightarrow>
     vmi_get_offset g ''win_tasks'' = Some tasks_offset \<and> tasks_offset \<noteq> 0
     \<and> vmi_get_offset g ''win_pid'' = Some pid_offset \<and> pid_offset \<noteq> 0
     \<and> vmi_get_offset g ''win_pname'' = Some pname_offset \<and> pname_offset \<noteq> 0
     \<and> vmi_read_addr_ksym g ''PsActiveProcessHead'' = Some list_head"

text \<open>
  A node (given by its base address) is decoded when both its pid read and its name read
  succeed; its record is then the printed line.
\<close>

definition decoded :: "vmi_instance option \<Rightarrow> size_t \<Rightarrow> size_t \<Rightarrow> addr_t \<Rightarrow> bool" where
  "decoded g pid_offset pname_offset base \<longleftrightarrow>
     vmi_read_32_va g (base + pid_offset) \<noteq> None \<and> vmi_read_str_va g (base + pname_offset) \<noteq> None"

definition process_record :: "vmi_instance option \<Rightarrow> size_t \<Rightarrow> size_t \<Rightarrow> addr_t \<Rightarrow> out" where
  "process_record g pid_offset pname_offset base =
     Out_Process (the (vmi_read_32_va g (base + pid_offset)))
                 (the (vmi_read_str_va g (base + pname_offset))) base"

fun is_thread_process :: "out \<Rightarrow> bool" where
  "is_thread_process (Out_Thread_Process pid proc_name) = True"
| "is_thread_process other = False"

text \<open>
  The offsets \<open>0x150, 0x158, ..., 0x1f8\<close>, and the words of a node found there that lie
  strictly between \<open>0xfffff80000000000\<close> and \<open>0xffffffffffffffff\<close>, with their offsets.
\<close>

definition scan_offsets :: "int list" where
  "scan_offsets = map (\<lambda>i. 0x150 + 8 * int i) [0..<22]"

definition scan_hits :: "vmi_instance option \<Rightarrow> addr_t \<Rightarrow> int list \<Rightarrow> (int \<times> addr_t) list" where
  "scan_hits g base offsets =
     concat (map (\<lambda>offset.
        case vmi_read_addr_va g (base + word_of_int offset) of
          None \<Rightarrow> []
        | Some p \<Rightarrow> if 0xfffff80000000000 < p \<and> p < 0xffffffffffffffff then [(offset, p)] else [])
      offsets)"

text \<open>The line printed for a counted pointer, and the number of nodes a thread pass analysed.\<close>

definition pointer_line :: "int \<times> addr_t \<Rightarrow> out" where
  "pointer_line h = Out_Thread_Pointer (fst h) (snd h)"

definition analyzed :: "out list \<Rightarrow> nat" where
  "analyzed printed = length (filter is_thread_process printed)"

section \<open>Example guests\<close>

text \<open>
  Three processes A, B, C with node bases \<open>0x1000\<close>, \<open>0x2000\<close>, \<open>0x3000\<close> and the
  offsets of the Windows 7 configuration; the head symbol holds A's link-field address and
  C links back to it.
\<close>

definition guest_abc :: vmi_instance where
  "guest_abc =
     \<lparr>get_offset = [''win_tasks'' \<mapsto> 0x188, ''win_pid'' \<mapsto> 0x180, ''win_pname'' \<mapsto> 0x2e0],
      read_addr_ksym = [''PsActiveProcessHead'' \<mapsto> 0x1188],
      read_32_va = [0x1180 \<mapsto> 4, 0x2180 \<mapsto> 300, 0x3180 \<mapsto> 500],
      read_str_va = [0x12e0 \<mapsto> ''System'', 0x22e0 \<mapsto> ''smss.exe'', 0x32e0 \<mapsto> ''explorer.exe''],
      read_addr_va = [0x1188 \<mapsto> 0x2188, 0x2188 \<mapsto> 0x3188, 0x3188 \<mapsto> 0x1188]\<rparr>"

text \<open>The same list, but the read of C's name fails.\<close>

definition guest_c_unnamed :: vmi_instance where
  "guest_c_unnamed = guest_abc\<lparr>read_str_va := [0x12e0 \<mapsto> ''System'', 0x22e0 \<mapsto> ''smss.exe'']\<rparr>"

text \<open>The same list, but the read of B's pid fails.\<close>

definition guest_b_no_pid :: vmi_instance where
  "guest_b_no_pid = guest_abc\<lparr>read_32_va := [0x1180 \<mapsto> 4, 0x3180 \<mapsto> 500]\<rparr>"

text \<open>A circular list of the two processes A and B only.\<close>

definition guest_ab :: vmi_instance where
  "guest_ab = guest_abc\<lparr>read_addr_va := [0x1188 \<mapsto> 0x2188, 0x2188 \<mapsto> 0x1188]\<rparr>"

text \<open>A links to B, and the read of B's link field fails.\<close>

definition guest_cut :: vmi_instance where
  "guest_cut = guest_abc\<lparr>read_addr_va := [0x1188 \<mapsto> 0x2188]\<rparr>"

text \<open>Corrupted chains: C links back to B, and B links to itself; neither returns to A.\<close>

definition guest_corrupt :: vmi_instance where
  "guest_corrupt =
     guest_abc\<lparr>read_addr_va := [0x1188 \<mapsto> 0x2188, 0x2188 \<mapsto> 0x3188, 0x3188 \<mapsto> 0x2188]\<rparr>"

definition guest_selfloop :: vmi_instance where
  "guest_selfloop = guest_abc\<lparr>read_addr_va := [0x1188 \<mapsto> 0x2188, 0x2188 \<mapsto> 0x2188]\<rparr>"

text \<open>
  A configuration in which the link field is the first field of the node: \<^verbatim>\<open>win_tasks\<close> is
  present with the value 0. Two processes, a circular list, every read succeeds.
\<close>

definition guest_zero_tasks :: vmi_instance where
  "guest_zero_tasks =
     \<lparr>get_offset = [''win_tasks'' \<mapsto> 0, ''win_pid'' \<mapsto> 0x180, ''win_pname'' \<mapsto> 0x2e0],
      read_addr_ksym = [''PsActiveProcessHead'' \<mapsto> 0x1000],
      read_32_va = [0x1180 \<mapsto> 4, 0x2180 \<mapsto> 300],
      read_str_va = [0x12e0 \<mapsto> ''System'', 0x22e0 \<mapsto> ''smss.exe''],
      read_addr_va = [0x1000 \<mapsto> 0x2000, 0x2000 \<mapsto> 0x1000]\<rparr>"

text \<open>
  The list of \<open>guest_abc\<close> under a configuration without \<^verbatim>\<open>win_pid\<close>; the first word of
  each node is readable.
\<close>

definition guest_no_pid :: vmi_instance where
  "guest_no_pid =
     guest_abc\<lparr>get_offset := [''win_tasks'' \<mapsto> 0x188, ''win_pname'' \<mapsto> 0x2e0],
               read_32_va := [0x1000 \<mapsto> 0x580003, 0x2000 \<mapsto> 0x580003, 0x3000 \<mapsto> 0x580003]\<rparr>"

text \<open>The list of \<open>guest_abc\<close> under a configuration without \<^verbatim>\<open>win_pname\<close>.\<close>

definition guest_no_pname :: vmi_instance where
  "guest_no_pname = guest_abc\<lparr>get_offset := [''win_tasks'' \<mapsto> 0x188, ''win_pid'' \<mapsto> 0x180]\<rparr>"

text \<open>The guest of \<open>guest_abc\<close> at a moment when the list head cannot be read.\<close>

definition guest_headless :: vmi_instance where
  "guest_headless = guest_abc\<lparr>read_addr_ksym := Map.empty\<rparr>"

text \<open>
  The list of \<open>guest_abc\<close> where words of B hold kernel pointers just below the scanned
  range (\<open>+0x148\<close>), at its first and last offsets (\<open>+0x150\<close>, \<open>+0x1f8\<close>) and just
  above it (\<open>+0x200\<close>); inside the range one word holds a user-space value and one the
  all-ones value.
\<close>

definition guest_pointers :: vmi_instance where
  "guest_pointers =
     guest_abc\<lparr>read_addr_va :=
       [0x1188 \<mapsto> 0x2188, 0x2188 \<mapsto> 0x3188, 0x3188 \<mapsto> 0x1188,
        0x2148 \<mapsto> 0xfffffa8000000010,
        0x2150 \<mapsto> 0xfffff80000000001, 0x2158 \<mapsto> 0x7ff00000, 0x2160 \<mapsto> 0xffffffffffffffff,
        0x21f8 \<mapsto> 0xfffffa8000000000, 0x2200 \<mapsto> 0xfffffa8000000008]\<rparr>"

section \<open>Lemmas about the process walk\<close>

lemmas vmi_api_defs =
  get_offset_safe_def vmi_get_offset_def vmi_read_addr_ksym_def vmi_read_32_va_def
  vmi_read_str_va_def vmi_read_addr_va_def

lemmas guest_defs =
  guest_abc_def guest_c_unnamed_def guest_b_no_pid_def guest_ab_def guest_cut_def
  guest_corrupt_def guest_selfloop_def guest_zero_tasks_def guest_no_pid_def guest_no_pname_def
  guest_headless_def guest_pointers_def

lemma process_node_eq:
  "process_node g p n b acc =
     (if decoded g p n b then (fst acc + 1, snd acc @ [process_record g p n b]) else acc)"
  by (auto simp: process_node_def decoded_def process_record_def split: option.splits)

lemma foldl_process_node:
  "foldl (\<lambda>acc b. process_node g p n b acc) acc bs =
     (fst acc + of_nat (length (filter (decoded g p n) bs)),
      snd acc @ map (process_record g p n) (filter (decoded g p n) bs))"
proof (induction bs arbitrary: acc)
  case Nil
  show ?case by simp
next
  case (Cons b bs)
  have "foldl (\<lambda>acc b. process_node g p n b acc) acc (b # bs) =
        foldl (\<lambda>acc b. process_node g p n b acc) (process_node g p n b acc) bs"
    by simp
  also have "\<dots> = (fst (process_node g p n b acc) + of_nat (length (filter (decoded g p n) bs)),
      snd (process_node g p n b acc) @ map (process_record g p n) (filter (decoded g p n) bs))"
    by (rule Cons.IH)
  also have "\<dots> = (fst acc + of_nat (length (filter (decoded g p n) (b # bs))),
      snd acc @ map (process_record g p n) (filter (decoded g p n) (b # bs)))"
    by (simp add: process_node_eq)
  finally show ?case .
qed

text \<open>
  The loop applies its body to the nodes of a chain in order, and returns after the last
  one when that one's link read fails or gives the head.
\<close>

lemma process_loop_walk:
  "links g (a # xs) \<Longrightarrow> head \<notin> set xs \<Longrightarrow>
   vmi_read_addr_va g (last (a # xs)) = None \<or> vmi_read_addr_va g (last (a # xs)) = Some head \<Longrightarrow>
   process_loop g head t p n a acc =
     Some (foldl (\<lambda>acc b. process_node g p n b acc) acc (map (\<lambda>a. a - t) (a # xs)))"
proof (induction xs arbitrary: a acc)
  case Nil
  then show ?case
    by (subst process_loop.simps) (auto simp: Let_def)
next
  case (Cons b xs)
  from Cons.prems have rd: "vmi_read_addr_va g a = Some b" and ne: "b \<noteq> head"
    and rest: "links g (b # xs)" "head \<notin> set xs"
    and lst: "vmi_read_addr_va g (last (b # xs)) = None
              \<or> vmi_read_addr_va g (last (b # xs)) = Some head"
    by auto
  show ?case
    by (subst process_loop.simps) (simp add: Let_def rd ne Cons.IH [OF rest lst])
qed

lemma enumerate_processes_resolved:
  "resolved g head t p n \<Longrightarrow>
   enumerate_processes g =
     (case process_loop g head t p n head (0, [Out_Process_Header]) of
        None \<Rightarrow> None
      | Some (process_count, printed) \<Rightarrow>
          Some (DEMO_SUCCESS, printed @ [Out_Process_Total process_count]))"
  by (simp add: resolved_def enumerate_processes_def get_offset_safe_def)

lemma enumerate_processes_walk:
  assumes "resolved g head t p n" and "links g (head # xs)" and "head \<notin> set xs"
    and "vmi_read_addr_va g (last (head # xs)) = None
         \<or> vmi_read_addr_va g (last (head # xs)) = Some head"
  shows "enumerate_processes g =
     Some (DEMO_SUCCESS,
           Out_Process_Header #
           map (process_record g p n) (filter (decoded g p n) (map (\<lambda>a. a - t) (head # xs))) @
           [Out_Process_Total
              (of_nat (length (filter (decoded g p n) (map (\<lambda>a. a - t) (head # xs)))))])"
  by (simp only: enumerate_processes_resolved [OF assms(1)] process_loop_walk [OF assms(2,3,4)]
        foldl_process_node) simp

lemma circular_list_walk:
  assumes "circular_list g head xs"
  obtains ys where "xs = head # ys" and "links g (head # ys)" and "head \<notin> set ys"
    and "vmi_read_addr_va g (last (head # ys)) = Some head"
  using assms by (cases xs) (auto simp: circular_list_def)

lemma cut_list_walk:
  assumes "cut_list g head xs"
  obtains ys where "xs = head # ys" and "links g (head # ys)" and "head \<notin> set ys"
    and "vmi_read_addr_va g (last (head # ys)) = None"
  using assms by (cases xs) (auto simp: cut_list_def)

text \<open>
  A walk that returns has met, after finitely many link reads, a failed read or the head.
\<close>

lemma process_loop_reaches:
  assumes "process_loop g head t p n cur acc = Some r"
  shows "\<exists>k. follow g (Suc k) cur = None \<or> follow g (Suc k) cur = Some head"
proof (rule process_loop.raw_induct
    [where P = "\<lambda>g head t p n cur acc r.
                  \<exists>k. follow g (Suc k) cur = None \<or> follow g (Suc k) cur = Some head"])
  show "process_loop g head t p n cur acc = Some r" by fact
next
  fix f g head t p n cur acc r
  assume IH: "\<And>g head t p n cur acc r. f g head t p n cur acc = Some r \<Longrightarrow>
                \<exists>k. follow g (Suc k) cur = None \<or> follow g (Suc k) cur = Some head"
    and body: "(let base = cur - t; acc' = process_node g p n base acc
                in case vmi_read_addr_va g (base + t) of
                     None \<Rightarrow> Some acc'
                   | Some next_link \<Rightarrow>
                       if next_link \<noteq> head then f g head t p n next_link acc'
                       else Some acc') = Some r"
  show "\<exists>k. follow g (Suc k) cur = None \<or> follow g (Suc k) cur = Some head"
  proof (cases "vmi_read_addr_va g cur")
    case None
    then have "follow g (Suc 0) cur = None" by simp
    then show ?thesis by blast
  next
    case (Some b)
    show ?thesis
    proof (cases "b = head")
      case True
      with Some have "follow g (Suc 0) cur = Some head" by simp
      then show ?thesis by blast
    next
      case False
      with Some body have "f g head t p n b (process_node g p n (cur - t) acc) = Some r"
        by (simp add: Let_def)
      then obtain k where "follow g (Suc k) b = None \<or> follow g (Suc k) b = Some head"
        using IH by blast
      with Some have "follow g (Suc (Suc k)) cur = None \<or> follow g (Suc (Suc k)) cur = Some head"
        by simp
      then show ?thesis by blast
    qed
  qed
qed

lemma enumerate_processes_returns:
  assumes "resolved g head t p n" and "enumerate_processes g = Some r"
  shows "\<exists>k. follow g (Suc k) head = None \<or> follow g (Suc k) head = Some head"
proof -
  from assms obtain r' where "process_loop g head t p n head (0, [Out_Process_Header]) = Some r'"
    by (auto simp: enumerate_processes_resolved split: option.splits)
  then show ?thesis by (rule process_loop_reaches)
qed

lemma enumerate_processes_diverges:
  assumes "resolved g head t p n"
    and "\<forall>k. \<exists>b. follow g (Suc k) head = Some b \<and> b \<noteq> head"
  shows "enumerate_processes g = None"
proof (cases "process_loop g head t p n head (0, [Out_Process_Header])")
  case None
  then show ?thesis by (simp add: enumerate_processes_resolved [OF assms(1)])
next
  case (Some r)
  from process_loop_reaches [OF this]
  obtain k where "follow g (Suc k) head = None \<or> follow g (Suc k) head = Some head"
    by blast
  moreover from assms(2) obtain b where "follow g (Suc k) head = Some b" and "b \<noteq> head"
    by blast
  ultimately show ?thesis by (auto simp del: follow.simps)
qed

section \<open>The offset lookup\<close>

text \<open>
  Claim C8. For every offset name, \<open>get_offset_safe\<close> returns 0 both when the lookup fails
  and when the stored offset is 0, and in no other case, so a caller cannot tell the two
  apart; and \<open>enumerate_processes\<close> reports the structural failure (the error line and
  \<open>DEMO_ERROR_PROCESS\<close>) whenever one of the three required offsets is present with the
  value 0.
\<close>

theorem get_offset_safe_conflates_missing_and_zero:
  "(get_offset_safe g offset_name = 0 \<longleftrightarrow>
      vmi_get_offset g offset_name = None \<or> vmi_get_offset g offset_name = Some 0)
   \<and> (vmi_get_offset g ''win_tasks'' = Some 0 \<or> vmi_get_offset g ''win_pid'' = Some 0
        \<or> vmi_get_offset g ''win_pname'' = Some 0 \<longrightarrow>
      enumerate_processes g = Some (DEMO_ERROR_PROCESS, [Out_Process_Header, Out_Offsets_Missing]))"
  by (auto simp: get_offset_safe_def enumerate_processes_def split: option.splits)

text \<open>
  On \<open>guest_zero_tasks\<close> the offset \<^verbatim>\<open>win_tasks\<close> is present and 0, the name \<^verbatim>\<open>win_kdbg\<close> is
  unknown; both lookups give 0 and the process pass fails.
\<close>

theorem get_offset_safe_conflates_witness:
  "vmi_get_offset (Some guest_zero_tasks) ''win_tasks'' = Some 0
   \<and> get_offset_safe (Some guest_zero_tasks) ''win_tasks'' = 0
   \<and> vmi_get_offset (Some guest_zero_tasks) ''win_kdbg'' = None
   \<and> get_offset_safe (Some guest_zero_tasks) ''win_kdbg'' = 0
   \<and> enumerate_processes (Some guest_zero_tasks) =
       Some (DEMO_ERROR_PROCESS, [Out_Process_Header, Out_Offsets_Missing])"
proof -
  have present: "vmi_get_offset (Some guest_zero_tasks) ''win_tasks'' = Some 0"
    by (simp add: vmi_get_offset_def guest_zero_tasks_def)
  have absent: "vmi_get_offset (Some guest_zero_tasks) ''win_kdbg'' = None"
    by (simp add: vmi_get_offset_def guest_zero_tasks_def)
  from present absent
    get_offset_safe_conflates_missing_and_zero [of "Some guest_zero_tasks" "''win_tasks''"]
    get_offset_safe_conflates_missing_and_zero [of "Some guest_zero_tasks" "''win_kdbg''"]
  show ?thesis by simp
qed

section \<open>The process walk on lists\<close>

text \<open>
  Claim C4. On a well-formed circular list of N nodes (offsets and head resolved), the
  pass prints a record for exactly the nodes whose pid read and name read both succeed, in
  list order: a node with a failed data read contributes nothing, the nodes after it are
  still processed, and the pass returns \<open>DEMO_SUCCESS\<close>. The number of records, which is
  the printed total, is N minus the number of skipped nodes.
\<close>

theorem data_read_failure_skips_node:
  assumes "resolved g list_head tasks_offset pid_offset pname_offset"
    and "circular_list g list_head xs"
  shows "enumerate_processes g =
           Some (DEMO_SUCCESS,
                 Out_Process_Header #
                 map (process_record g pid_offset pname_offset)
                   (filter (decoded g pid_offset pname_offset) (map (\<lambda>a. a - tasks_offset) xs)) @
                 [Out_Process_Total
                    (of_nat (length (filter (decoded g pid_offset pname_offset)
                                       (map (\<lambda>a. a - tasks_offset) xs))))])
         \<and> length (filter (decoded g pid_offset pname_offset) (map (\<lambda>a. a - tasks_offset) xs)) =
             length xs
             - length (filter (\<lambda>b. \<not> decoded g pid_offset pname_offset b)
                         (map (\<lambda>a. a - tasks_offset) xs))"
proof -
  from assms(2) obtain ys where xs: "xs = list_head # ys" and l: "links g (list_head # ys)"
    and h: "list_head \<notin> set ys"
    and c: "vmi_read_addr_va g (last (list_head # ys)) = Some list_head"
    by (rule circular_list_walk)
  have "length (filter (decoded g pid_offset pname_offset) (map (\<lambda>a. a - tasks_offset) xs))
        + length (filter (\<lambda>b. \<not> decoded g pid_offset pname_offset b)
                    (map (\<lambda>a. a - tasks_offset) xs))
        = length (map (\<lambda>a. a - tasks_offset) xs)"
    by (rule sum_length_filter_compl)
  then show ?thesis
    using enumerate_processes_walk [OF assms(1) l h disjI2 [OF c]] xs by simp
qed

text \<open>
  On \<open>guest_b_no_pid\<close> the read of B's pid fails: the records are those of A and C.
\<close>

theorem data_read_failure_skips_node_witness:
  "resolved (Some guest_b_no_pid) 0x1188 0x188 0x180 0x2e0
   \<and> circular_list (Some guest_b_no_pid) 0x1188 [0x1188, 0x2188, 0x3188]
   \<and> enumerate_processes (Some guest_b_no_pid) =
       Some (DEMO_SUCCESS,
             [Out_Process_Header, Out_Process 4 ''System'' 0x1000,
              Out_Process 500 ''explorer.exe'' 0x3000, Out_Process_Total 2])"
proof -
  have r: "resolved (Some guest_b_no_pid) 0x1188 0x188 0x180 0x2e0"
    by (simp add: resolved_def vmi_api_defs guest_defs)
  have c: "circular_list (Some guest_b_no_pid) 0x1188 [0x1188, 0x2188, 0x3188]"
    by (simp add: circular_list_def vmi_api_defs guest_defs)
  from data_read_failure_skips_node [OF r c] r c show ?thesis
    by (simp add: decoded_def process_record_def vmi_api_defs guest_defs)
qed

text \<open>
  Claim C2, as amended. On a well-formed circular list of N nodes reachable from the
  resolved head, with the three offsets present and different from 0 and every pid, name
  and link read succeeding, the pass returns \<open>DEMO_SUCCESS\<close> after printing the N records
  in list order and the total N; the N node bases (link-field address minus the tasks
  offset) are distinct. It returns because the last link is the head address.
\<close>

theorem circular_list_enumerated:
  assumes "resolved g list_head tasks_offset pid_offset pname_offset"
    and "circular_list g list_head xs"
    and "\<forall>a \<in> set xs. decoded g pid_offset pname_offset (a - tasks_offset)"
  shows "enumerate_processes g =
           Some (DEMO_SUCCESS,
                 Out_Process_Header #
                 map (\<lambda>a. process_record g pid_offset pname_offset (a - tasks_offset)) xs @
                 [Out_Process_Total (of_nat (length xs))])
         \<and> distinct (map (\<lambda>a. a - tasks_offset) xs)"
proof -
  from assms(2) obtain ys where xs: "xs = list_head # ys" and l: "links g (list_head # ys)"
    and h: "list_head \<notin> set ys"
    and c: "vmi_read_addr_va g (last (list_head # ys)) = Some list_head"
    by (rule circular_list_walk)
  from assms(3)
  have all: "filter (decoded g pid_offset pname_offset) (map (\<lambda>a. a - tasks_offset) xs) =
             map (\<lambda>a. a - tasks_offset) xs"
    by (simp add: filter_id_conv)
  from assms(2) have "distinct xs" by (simp add: circular_list_def)
  then have d: "distinct (map (\<lambda>a. a - tasks_offset) xs)"
    by (simp add: distinct_map inj_on_def)
  from enumerate_processes_walk [OF assms(1) l h disjI2 [OF c]] all d xs
  show ?thesis by (simp add: o_def)
qed

text \<open>
  The three processes of \<open>guest_abc\<close> are enumerated in the order A, B, C.
\<close>

theorem circular_list_enumerated_witness:
  "resolved (Some guest_abc) 0x1188 0x188 0x180 0x2e0
   \<and> circular_list (Some guest_abc) 0x1188 [0x1188, 0x2188, 0x3188]
   \<and> decoded (Some guest_abc) 0x180 0x2e0 0x1000
   \<and> decoded (Some guest_abc) 0x180 0x2e0 0x2000
   \<and> decoded (Some guest_abc) 0x180 0x2e0 0x3000
   \<and> enumerate_processes (Some guest_abc) =
       Some (DEMO_SUCCESS,
             [Out_Process_Header, Out_Process 4 ''System'' 0x1000,
              Out_Process 300 ''smss.exe'' 0x2000, Out_Process 500 ''explorer.exe'' 0x3000,
              Out_Process_Total 3])"
proof -
  have r: "resolved (Some guest_abc) 0x1188 0x188 0x180 0x2e0"
    by (simp add: resolved_def vmi_api_defs guest_defs)
  have c: "circular_list (Some guest_abc) 0x1188 [0x1188, 0x2188, 0x3188]"
    by (simp add: circular_list_def vmi_api_defs guest_defs)
  have d: "\<forall>a \<in> set [0x1188, 0x2188, 0x3188]. decoded (Some guest_abc) 0x180 0x2e0 (a - 0x188)"
    by (simp add: decoded_def vmi_api_defs guest_defs)
  have d': "decoded (Some guest_abc) 0x180 0x2e0 0x1000
            \<and> decoded (Some guest_abc) 0x180 0x2e0 0x2000
            \<and> decoded (Some guest_abc) 0x180 0x2e0 0x3000"
    using d by simp
  from circular_list_enumerated [OF r c d] r c d' show ?thesis
    by (simp add: process_record_def vmi_api_defs guest_defs)
qed

text \<open>
  The claim as stated asks only that the offsets be present. On \<open>guest_zero_tasks\<close> they
  are, the list is circular and every read succeeds, but \<^verbatim>\<open>win_tasks\<close> is 0 and the pass
  fails without a record.
\<close>

theorem present_zero_offset_counterexample:
  "vmi_get_offset (Some guest_zero_tasks) ''win_tasks'' \<noteq> None
   \<and> vmi_get_offset (Some guest_zero_tasks) ''win_pid'' \<noteq> None
   \<and> vmi_get_offset (Some guest_zero_tasks) ''win_pname'' \<noteq> None
   \<and> vmi_read_addr_ksym (Some guest_zero_tasks) ''PsActiveProcessHead'' = Some 0x1000
   \<and> circular_list (Some guest_zero_tasks) 0x1000 [0x1000, 0x2000]
   \<and> decoded (Some guest_zero_tasks) 0x180 0x2e0 0x1000
   \<and> decoded (Some guest_zero_tasks) 0x180 0x2e0 0x2000
   \<and> enumerate_processes (Some guest_zero_tasks) =
       Some (DEMO_ERROR_PROCESS, [Out_Process_Header, Out_Offsets_Missing])"
  by (simp add: circular_list_def decoded_def enumerate_processes_def vmi_api_defs
        guest_zero_tasks_def)

text \<open>
  Claim C3. When the read of the link field fails at the k-th node of a chain (no link
  before it is the head), the pass has processed exactly these k nodes, a failed pid or
  name read among them only dropping that node's record, and it returns \<open>DEMO_SUCCESS\<close>
  with the records of the decoded nodes in order; when no data read fails these are k
  records. And whenever the pass returns, a link read has failed or a link has given the
  head address: no other read failure ends the walk.
\<close>

theorem link_read_failure_ends_walk:
  assumes "resolved g list_head tasks_offset pid_offset pname_offset"
  shows "(cut_list g list_head xs \<longrightarrow>
            enumerate_processes g =
              Some (DEMO_SUCCESS,
                    Out_Process_Header #
                    map (process_record g pid_offset pname_offset)
                      (filter (decoded g pid_offset pname_offset)
                         (map (\<lambda>a. a - tasks_offset) xs)) @
                    [Out_Process_Total
                       (of_nat (length (filter (decoded g pid_offset pname_offset)
                                          (map (\<lambda>a. a - tasks_offset) xs))))])
            \<and> ((\<forall>a \<in> set xs. decoded g pid_offset pname_offset (a - tasks_offset)) \<longrightarrow>
                 length (filter (decoded g pid_offset pname_offset)
                           (map (\<lambda>a. a - tasks_offset) xs)) = length xs))
         \<and> (enumerate_processes g = Some r \<longrightarrow>
              (\<exists>k. follow g (Suc k) list_head = None
                    \<or> follow g (Suc k) list_head = Some list_head))"
proof (intro conjI impI)
  assume "cut_list g list_head xs"
  then obtain ys where xs: "xs = list_head # ys" and l: "links g (list_head # ys)"
    and h: "list_head \<notin> set ys"
    and c: "vmi_read_addr_va g (last (list_head # ys)) = None"
    by (rule cut_list_walk)
  from enumerate_processes_walk [OF assms l h disjI1 [OF c]] xs
  show "enumerate_processes g =
          Some (DEMO_SUCCESS,
                Out_Process_Header #
                map (process_record g pid_offset pname_offset)
                  (filter (decoded g pid_offset pname_offset)
                     (map (\<lambda>a. a - tasks_offset) xs)) @
                [Out_Process_Total
                   (of_nat (length (filter (decoded g pid_offset pname_offset)
                                      (map (\<lambda>a. a - tasks_offset) xs))))])"
    by simp
next
  assume "\<forall>a \<in> set xs. decoded g pid_offset pname_offset (a - tasks_offset)"
  then have "filter (decoded g pid_offset pname_offset) (map (\<lambda>a. a - tasks_offset) xs)
        = map (\<lambda>a. a - tasks_offset) xs"
    by (simp add: filter_id_conv)
  then show "length (filter (decoded g pid_offset pname_offset)
                       (map (\<lambda>a. a - tasks_offset) xs)) = length xs"
    by (metis length_map)
next
  assume "enumerate_processes g = Some r"
  with assms show "\<exists>k. follow g (Suc k) list_head = None
                       \<or> follow g (Suc k) list_head = Some list_head"
    by (rule enumerate_processes_returns)
qed

text \<open>
  On \<open>guest_cut\<close> the read of B's link field fails: the walk stops after A and B.
\<close>

theorem link_read_failure_ends_walk_witness:
  "resolved (Some guest_cut) 0x1188 0x188 0x180 0x2e0
   \<and> cut_list (Some guest_cut) 0x1188 [0x1188, 0x2188]
   \<and> enumerate_processes (Some guest_cut) =
       Some (DEMO_SUCCESS,
             [Out_Process_Header, Out_Process 4 ''System'' 0x1000,
              Out_Process 300 ''smss.exe'' 0x2000, Out_Process_Total 2])
   \<and> (\<exists>k. follow (Some guest_cut) (Suc k) 0x1188 = None
           \<or> follow (Some guest_cut) (Suc k) 0x1188 = Some 0x1188)"
proof -
  have r: "resolved (Some guest_cut) 0x1188 0x188 0x180 0x2e0"
    by (simp add: resolved_def vmi_api_defs guest_defs)
  have c: "cut_list (Some guest_cut) 0x1188 [0x1188, 0x2188]"
    by (simp add: cut_list_def vmi_api_defs guest_defs)
  note t = link_read_failure_ends_walk [OF r, of "[0x1188, 0x2188]"]
  from t c have e: "enumerate_processes (Some guest_cut) =
       Some (DEMO_SUCCESS,
             [Out_Process_Header, Out_Process 4 ''System'' 0x1000,
              Out_Process 300 ''smss.exe'' 0x2000, Out_Process_Total 2])"
    by (simp add: decoded_def process_record_def vmi_api_defs guest_defs)
  from t e have "\<exists>k. follow (Some guest_cut) (Suc k) 0x1188 = None
           \<or> follow (Some guest_cut) (Suc k) 0x1188 = Some 0x1188"
    by (simp del: follow.simps)
  with r c e show ?thesis by blast
qed

section \<open>The walk has no iteration ceiling\<close>

text \<open>
  Claim C1, as amended. \<open>enumerate_processes\<close> has no iteration ceiling and no corruption
  flag: when the offsets and the head are resolved, no link read fails and the chain of
  link pointers never returns to the head address, the pass never returns.
\<close>

theorem walk_without_ceiling_never_returns:
  assumes "resolved g list_head tasks_offset pid_offset pname_offset"
    and "\<forall>k. \<exists>b. follow g (Suc k) list_head = Some b \<and> b \<noteq> list_head"
  shows "enumerate_processes g = None"
  using assms by (rule enumerate_processes_diverges)

lemma follow_corrupt:
  "follow (Some guest_corrupt) k 0x2188 \<in> {Some 0x2188, Some 0x3188}
   \<and> follow (Some guest_corrupt) k 0x3188 \<in> {Some 0x2188, Some 0x3188}"
  by (induction k) (simp_all add: vmi_read_addr_va_def guest_defs)

lemma follow_selfloop: "follow (Some guest_selfloop) k 0x2188 = Some 0x2188"
  by (induction k) (simp_all add: vmi_read_addr_va_def guest_defs)

text \<open>
  In \<open>guest_selfloop\<close> B links to itself.
\<close>

theorem walk_without_ceiling_witness:
  "resolved (Some guest_selfloop) 0x1188 0x188 0x180 0x2e0
   \<and> (\<forall>k. \<exists>b. follow (Some guest_selfloop) (Suc k) 0x1188 = Some b \<and> b \<noteq> 0x1188)
   \<and> enumerate_processes (Some guest_selfloop) = None"
proof -
  have r: "resolved (Some guest_selfloop) 0x1188 0x188 0x180 0x2e0"
    by (simp add: resolved_def vmi_api_defs guest_defs)
  have f: "\<forall>k. \<exists>b. follow (Some guest_selfloop) (Suc k) 0x1188 = Some b \<and> b \<noteq> 0x1188"
  proof
    fix k
    have "follow (Some guest_selfloop) (Suc k) 0x1188 = follow (Some guest_selfloop) k 0x2188"
      by (simp add: vmi_read_addr_va_def guest_defs)
    then show "\<exists>b. follow (Some guest_selfloop) (Suc k) 0x1188 = Some b \<and> b \<noteq> 0x1188"
      by (simp only: follow_selfloop) simp
  qed
  from walk_without_ceiling_never_returns [OF r f] r f show ?thesis by blast
qed

text \<open>
  In \<open>guest_corrupt\<close> C links back to B, so the chain from A never returns to A: the
  pass does not halt, with or without a flag.
\<close>

theorem no_iteration_ceiling_counterexample:
  "resolved (Some guest_corrupt) 0x1188 0x188 0x180 0x2e0
   \<and> vmi_read_addr_va (Some guest_corrupt) 0x1188 = Some 0x2188
   \<and> vmi_read_addr_va (Some guest_corrupt) 0x2188 = Some 0x3188
   \<and> vmi_read_addr_va (Some guest_corrupt) 0x3188 = Some 0x2188
   \<and> enumerate_processes (Some guest_corrupt) = None"
proof -
  have r: "resolved (Some guest_corrupt) 0x1188 0x188 0x180 0x2e0"
    by (simp add: resolved_def vmi_api_defs guest_defs)
  have "\<forall>k. \<exists>b. follow (Some guest_corrupt) (Suc k) 0x1188 = Some b \<and> b \<noteq> 0x1188"
  proof
    fix k
    have "follow (Some guest_corrupt) (Suc k) 0x1188 = follow (Some guest_corrupt) k 0x2188"
      by (simp add: vmi_read_addr_va_def guest_defs)
    with follow_corrupt [of k]
    show "\<exists>b. follow (Some guest_corrupt) (Suc k) 0x1188 = Some b \<and> b \<noteq> 0x1188"
      by auto
  qed
  with r have "enumerate_processes (Some guest_corrupt) = None"
    by (rule enumerate_processes_diverges)
  with r show ?thesis by (simp add: vmi_read_addr_va_def guest_defs)
qed

section \<open>What the report of a process pass contains\<close>





section \<open>The pointer scan of the thread pass\<close>

lemma thread_scan_foldl:
  "thread_scan g base (0x200 - 8 * int k) acc =
     foldl (\<lambda>acc offset. thread_probe g base offset acc) acc
       (map (\<lambda>i. 0x200 - 8 * int k + 8 * int i) [0..<k])"
proof (induction k arbitrary: acc)
  case 0
  show ?case by simp
next
  case (Suc k)
  have upt: "[0..<Suc k] = 0 # map Suc [0..<k]"
    by (simp add: upt_conv_Cons map_Suc_upt del: upt_Suc)
  have step: "thread_scan g base (0x200 - 8 * int (Suc k)) acc =
        thread_scan g base (0x200 - 8 * int k)
          (thread_probe g base (0x200 - 8 * int (Suc k)) acc)"
    by (subst thread_scan.simps) (simp add: algebra_simps)
  show ?case
    unfolding step Suc.IH upt
    by (simp add: o_def algebra_simps del: upt_Suc thread_scan.simps)
qed

lemma thread_scan_offsets:
  "thread_scan g base 0x150 acc =
     foldl (\<lambda>acc offset. thread_probe g base offset acc) acc scan_offsets"
  using thread_scan_foldl [of g base 22 acc]
  by (simp add: scan_offsets_def del: thread_scan.simps upt_Suc cong: map_cong)



lemma scan_hits_Cons:
  "scan_hits g base (offset # offsets) = scan_hits g base [offset] @ scan_hits g base offsets"
  by (simp add: scan_hits_def)

lemma thread_probe_miss:
  "scan_hits g base [offset] = [] \<Longrightarrow> thread_probe g base offset acc = acc"
  by (auto simp: scan_hits_def thread_probe_def split: option.splits if_splits)

lemma thread_probe_hit:
  "scan_hits g base [offset] = h # hs \<Longrightarrow>
   hs = [] \<and> thread_probe g base offset acc =
     (fst acc + 1, if fst acc + 1 \<le> 3 then snd acc @ [pointer_line h] else snd acc)"
  by (auto simp: scan_hits_def thread_probe_def pointer_line_def split: option.splits if_splits)

lemma unat_succ32: "unat (w :: uint32_t) + 1 < 2 ^ 32 \<Longrightarrow> unat (w + 1) = unat w + 1"
  using unat_add_lem [of w 1] by simp

lemma foldl_thread_probe:
  "unat (fst acc) + length offsets < 2 ^ 32 \<Longrightarrow>
   foldl (\<lambda>acc offset. thread_probe g base offset acc) acc offsets =
     (fst acc + of_nat (length (scan_hits g base offsets)),
      snd acc @ map pointer_line (take (3 - unat (fst acc)) (scan_hits g base offsets)))"
proof (induction offsets arbitrary: acc)
  case Nil
  show ?case by (simp add: scan_hits_def)
next
  case (Cons offset offsets)
  show ?case
  proof (cases "scan_hits g base [offset]")
    case Nil
    from Cons.prems have "unat (fst acc) + length offsets < 2 ^ 32" by simp
    from Cons.IH [OF this] show ?thesis
      by (simp add: thread_probe_miss [OF Nil] scan_hits_Cons [of g base offset offsets] Nil)
  next
    case (Cons h hs)
    from thread_probe_hit [OF this]
    have hs: "hs = []" and probe: "thread_probe g base offset acc =
        (fst acc + 1, if fst acc + 1 \<le> 3 then snd acc @ [pointer_line h] else snd acc)"
      by simp_all
    from Cons.prems have u: "unat (fst acc + 1) = unat (fst acc) + 1"
      by (intro unat_succ32) simp
    have le: "fst acc + 1 \<le> 3 \<longleftrightarrow> unat (fst acc) < 3"
      by (auto simp: word_le_nat_alt u)
    from Cons.prems u have "unat (fst (thread_probe g base offset acc)) + length offsets < 2 ^ 32"
      by (simp add: probe)
    from Cons.IH [OF this] show ?thesis
      by (cases "unat (fst acc) < 3")
         (simp_all add: probe u le scan_hits_Cons [of g base offset offsets] Cons hs
            add.assoc Suc_diff_Suc take_Cons')
  qed
qed

lemma thread_scan_closed:
  "thread_scan g base 0x150 (0, printed) =
     (of_nat (length (scan_hits g base scan_offsets)),
      printed @ map pointer_line (take 3 (scan_hits g base scan_offsets)))"
proof -
  have "unat (fst (0 :: uint32_t, printed)) + length scan_offsets < 2 ^ 32"
    by (simp add: scan_offsets_def)
  from foldl_thread_probe [OF this] show ?thesis
    by (simp add: thread_scan_offsets del: thread_scan.simps)
qed



lemma analyzed_simps:
  "analyzed [] = 0"
  "analyzed (xs @ ys) = analyzed xs + analyzed ys"
  "analyzed (x # xs) = (if is_thread_process x then 1 else 0) + analyzed xs"
  "analyzed (map pointer_line hs) = 0"
  by (simp_all add: analyzed_def pointer_line_def o_def)

lemma thread_node_invariant:
  assumes "analyzed (snd acc) = unat (fst acc)" and "fst acc \<le> 10"
  shows "analyzed (snd (thread_node g p n b acc)) = unat (fst (thread_node g p n b acc))
         \<and> fst (thread_node g p n b acc) \<le> 10"
proof (cases "thread_node g p n b acc = acc")
  case True
  with assms show ?thesis by simp
next
  case False
  then obtain pid proc_name where lt: "fst acc < 10"
    and node: "thread_node g p n b acc =
      (let scanned = thread_scan g b 0x150 (0, snd acc @ [Out_Thread_Process pid proc_name]);
           thread_count = fst scanned
       in (fst acc + 1,
           snd scanned @
             [if 0 < thread_count then Out_Thread_Estimate thread_count
              else Out_Thread_Accessible]))"
    by (auto simp: thread_node_def simp del: thread_scan.simps split: option.splits if_splits)
  from lt have "unat (fst acc) < 10" by (simp add: word_less_nat_alt)
  then have u: "unat (fst acc + 1) = unat (fst acc) + 1"
    by (intro unat_succ32) simp
  with \<open>unat (fst acc) < 10\<close> have "fst acc + 1 \<le> 10"
    by (simp add: word_le_nat_alt)
  with assms(1) u show ?thesis
    by (simp add: node thread_scan_closed Let_def analyzed_simps del: thread_scan.simps)
qed

lemma thread_loop_invariant:
  assumes "thread_loop g head t p n cur acc = Some r"
  shows "analyzed (snd acc) = unat (fst acc) \<and> fst acc \<le> 10 \<longrightarrow>
         analyzed (snd r) = unat (fst r) \<and> fst r \<le> 10"
proof (rule thread_loop.raw_induct
    [where P = "\<lambda>g head t p n cur acc r.
                  analyzed (snd acc) = unat (fst acc) \<and> fst acc \<le> 10 \<longrightarrow>
                  analyzed (snd r) = unat (fst r) \<and> fst r \<le> 10"])
  show "thread_loop g head t p n cur acc = Some r" by fact
next
  fix f g head t p n cur acc r
  assume IH: "\<And>g head t p n cur acc r. f g head t p n cur acc = Some r \<Longrightarrow>
                analyzed (snd acc) = unat (fst acc) \<and> fst acc \<le> 10 \<longrightarrow>
                analyzed (snd r) = unat (fst r) \<and> fst r \<le> 10"
    and body: "(let base = cur - t; acc' = thread_node g p n base acc
                in case vmi_read_addr_va g (base + t) of
                     None \<Rightarrow> Some acc'
                   | Some next_link \<Rightarrow>
                       if next_link \<noteq> head then f g head t p n next_link acc'
                       else Some acc') = Some r"
  have "r = thread_node g p n (cur - t) acc
        \<or> (\<exists>b. f g head t p n b (thread_node g p n (cur - t) acc) = Some r)"
    using body by (auto simp: Let_def split: option.splits if_splits)
  then show "analyzed (snd acc) = unat (fst acc) \<and> fst acc \<le> 10 \<longrightarrow>
             analyzed (snd r) = unat (fst r) \<and> fst r \<le> 10"
    using IH thread_node_invariant [of acc g p n "cur - t"] by blast
qed

lemma scan_offsets_list:
  "scan_offsets =
     [0x150, 0x158, 0x160, 0x168, 0x170, 0x178, 0x180, 0x188, 0x190, 0x198, 0x1a0,
      0x1a8, 0x1b0, 0x1b8, 0x1c0, 0x1c8, 0x1d0, 0x1d8, 0x1e0, 0x1e8, 0x1f0, 0x1f8]"
  by (simp add: scan_offsets_def upt_rec)

lemma length_scan_hits: "length (scan_hits g base offsets) \<le> length offsets"
  by (induction offsets) (auto simp: scan_hits_def split: option.splits)

lemma scan_count_positive:
  "(0 :: uint32_t) < of_nat (length (scan_hits g base scan_offsets))
   \<longleftrightarrow> scan_hits g base scan_offsets \<noteq> []"
proof -
  have "length (scan_hits g base scan_offsets) \<le> 22"
    using length_scan_hits [of g base scan_offsets] by (simp add: scan_offsets_def)
  then have "unat (of_nat (length (scan_hits g base scan_offsets)) :: uint32_t)
             = length (scan_hits g base scan_offsets)"
    by (simp add: unat_of_nat)
  then show ?thesis by (simp add: word_less_nat_alt)
qed

lemma thread_node_closed:
  "thread_node g p n base acc =
     (case vmi_read_32_va g (base + p) of
        None \<Rightarrow> acc
      | Some pid \<Rightarrow>
          (case vmi_read_str_va g (base + n) of
             None \<Rightarrow> acc
           | Some proc_name \<Rightarrow>
               if 4 <s pid \<and> fst acc < 10
               then (fst acc + 1,
                     snd acc @ [Out_Thread_Process pid proc_name] @
                     map pointer_line (take 3 (scan_hits g base scan_offsets)) @
                     [if scan_hits g base scan_offsets \<noteq> []
                      then Out_Thread_Estimate (of_nat (length (scan_hits g base scan_offsets)))
                      else Out_Thread_Accessible])
               else acc))"
  by (cases "vmi_read_32_va g (base + p)"; cases "vmi_read_str_va g (base + n)")
     (simp_all add: thread_node_def thread_scan_closed scan_count_positive Let_def
        del: thread_scan.simps)

lemma thread_loop_walk:
  "links g (a # xs) \<Longrightarrow> head \<notin> set xs \<Longrightarrow>
   vmi_read_addr_va g (last (a # xs)) = None \<or> vmi_read_addr_va g (last (a # xs)) = Some head \<Longrightarrow>
   thread_loop g head t p n a acc =
     Some (foldl (\<lambda>acc b. thread_node g p n b acc) acc (map (\<lambda>a. a - t) (a # xs)))"
proof (induction xs arbitrary: a acc)
  case Nil
  then show ?case
    by (subst thread_loop.simps) (auto simp: Let_def)
next
  case (Cons b xs)
  from Cons.prems have rd: "vmi_read_addr_va g a = Some b" and ne: "b \<noteq> head"
    and rest: "links g (b # xs)" "head \<notin> set xs"
    and lst: "vmi_read_addr_va g (last (b # xs)) = None
              \<or> vmi_read_addr_va g (last (b # xs)) = Some head"
    by auto
  show ?case
    by (subst thread_loop.simps) (simp add: Let_def rd ne Cons.IH [OF rest lst])
qed

lemma enumerate_threads_walk:
  assumes "vmi_read_addr_ksym g ''PsActiveProcessHead'' = Some head"
    and "links g (head # xs)" and "head \<notin> set xs"
    and "vmi_read_addr_va g (last (head # xs)) = None
         \<or> vmi_read_addr_va g (last (head # xs)) = Some head"
  shows "enumerate_threads g =
     (let r = foldl (\<lambda>acc base.
                  thread_node g (get_offset_safe g ''win_pid'') (get_offset_safe g ''win_pname'')
                    base acc)
                (0, [Out_Thread_Header])
                (map (\<lambda>a. a - get_offset_safe g ''win_tasks'') (head # xs))
      in Some (DEMO_SUCCESS, snd r @ [Out_Thread_Total (fst r)]))"
  by (simp only: enumerate_threads_def Let_def assms(1) option.case
        thread_loop_walk [OF assms(2,3,4)] split_beta)

text \<open>
  Claim C9. At a node, the thread pass skips the node when its pid or name read fails,
  when the pid is not above 4 or when 10 nodes have been analysed; otherwise it scans the
  22 words at the offsets \<open>0x150, 0x158, ..., 0x1f8\<close> of the node and nothing else,
  counts those that could be read and lie strictly between \<open>0xfffff80000000000\<close> and
  \<open>0xffffffffffffffff\<close>, and prints the first three of them and the count. On a chain
  of nodes the report of the pass is what these node steps print, in order. The scan
  raises no error: a thread pass that returns fails exactly when the list head cannot be
  resolved. And a pass analyses at most 10 nodes, whatever the length of the list.
\<close>

theorem thread_scan_is_bounded_heuristic:
  "thread_node g pid_offset pname_offset base acc =
     (let hits = scan_hits g base
                   [0x150, 0x158, 0x160, 0x168, 0x170, 0x178, 0x180, 0x188, 0x190, 0x198, 0x1a0,
                    0x1a8, 0x1b0, 0x1b8, 0x1c0, 0x1c8, 0x1d0, 0x1d8, 0x1e0, 0x1e8, 0x1f0, 0x1f8]
      in case vmi_read_32_va g (base + pid_offset) of
           None \<Rightarrow> acc
         | Some pid \<Rightarrow>
             (case vmi_read_str_va g (base + pname_offset) of
                None \<Rightarrow> acc
              | Some proc_name \<Rightarrow>
                  if 4 <s pid \<and> fst acc < 10
                  then (fst acc + 1,
                        snd acc @ [Out_Thread_Process pid proc_name] @
                        map pointer_line (take 3 hits) @
                        [if hits \<noteq> [] then Out_Thread_Estimate (of_nat (length hits))
                         else Out_Thread_Accessible])
                  else acc))
   \<and> (vmi_read_addr_ksym g ''PsActiveProcessHead'' = Some list_head
        \<and> links g (list_head # xs) \<and> list_head \<notin> set xs
        \<and> (vmi_read_addr_va g (last (list_head # xs)) = None
             \<or> vmi_read_addr_va g (last (list_head # xs)) = Some list_head) \<longrightarrow>
        enumerate_threads g =
          (let r = foldl (\<lambda>acc base.
                       thread_node g (get_offset_safe g ''win_pid'')
                         (get_offset_safe g ''win_pname'') base acc)
                     (0, [Out_Thread_Header])
                     (map (\<lambda>a. a - get_offset_safe g ''win_tasks'') (list_head # xs))
           in Some (DEMO_SUCCESS, snd r @ [Out_Thread_Total (fst r)])))
   \<and> (enumerate_threads g = Some (result, report) \<longrightarrow>
        (result = DEMO_ERROR_PROCESS \<longleftrightarrow> vmi_read_addr_ksym g ''PsActiveProcessHead'' = None)
        \<and> (result = DEMO_SUCCESS \<longleftrightarrow> vmi_read_addr_ksym g ''PsActiveProcessHead'' \<noteq> None)
        \<and> analyzed report \<le> 10)"
proof (intro conjI)
  show "thread_node g pid_offset pname_offset base acc =
     (let hits = scan_hits g base
                   [0x150, 0x158, 0x160, 0x168, 0x170, 0x178, 0x180, 0x188, 0x190, 0x198, 0x1a0,
                    0x1a8, 0x1b0, 0x1b8, 0x1c0, 0x1c8, 0x1d0, 0x1d8, 0x1e0, 0x1e8, 0x1f0, 0x1f8]
      in case vmi_read_32_va g (base + pid_offset) of
           None \<Rightarrow> acc
         | Some pid \<Rightarrow>
             (case vmi_read_str_va g (base + pname_offset) of
                None \<Rightarrow> acc
              | Some proc_name \<Rightarrow>
                  if 4 <s pid \<and> fst acc < 10
                  then (fst acc + 1,
                        snd acc @ [Out_Thread_Process pid proc_name] @
                        map pointer_line (take 3 hits) @
                        [if hits \<noteq> [] then Out_Thread_Estimate (of_nat (length hits))
                         else Out_Thread_Accessible])
                  else acc))"
    unfolding scan_offsets_list [symmetric] Let_def by (rule thread_node_closed)
next
  show "vmi_read_addr_ksym g ''PsActiveProcessHead'' = Some list_head
        \<and> links g (list_head # xs) \<and> list_head \<notin> set xs
        \<and> (vmi_read_addr_va g (last (list_head # xs)) = None
             \<or> vmi_read_addr_va g (last (list_head # xs)) = Some list_head) \<longrightarrow>
        enumerate_threads g =
          (let r = foldl (\<lambda>acc base.
                       thread_node g (get_offset_safe g ''win_pid'')
                         (get_offset_safe g ''win_pname'') base acc)
                     (0, [Out_Thread_Header])
                     (map (\<lambda>a. a - get_offset_safe g ''win_tasks'') (list_head # xs))
           in Some (DEMO_SUCCESS, snd r @ [Out_Thread_Total (fst r)]))"
    using enumerate_threads_walk [of g list_head xs] by blast
next
  have "analyzed report \<le> 10
        \<and> (result = DEMO_ERROR_PROCESS \<longleftrightarrow> vmi_read_addr_ksym g ''PsActiveProcessHead'' = None)
        \<and> (result = DEMO_SUCCESS \<longleftrightarrow> vmi_read_addr_ksym g ''PsActiveProcessHead'' \<noteq> None)"
    if ret: "enumerate_threads g = Some (result, report)"
  proof (cases "vmi_read_addr_ksym g ''PsActiveProcessHead''")
    case None
    with ret show ?thesis
      by (auto simp: enumerate_threads_def Let_def analyzed_simps)
  next
    case (Some head)
    with ret obtain t p n r where
      loop: "thread_loop g head t p n head (0, [Out_Thread_Header]) = Some r"
      and res: "result = DEMO_SUCCESS" "report = snd r @ [Out_Thread_Total (fst r)]"
      by (auto simp: enumerate_threads_def Let_def split: option.splits)
    from thread_loop_invariant [OF loop]
    have "analyzed (snd r) = unat (fst r)" and "fst r \<le> 10"
      by (simp_all add: analyzed_simps)
    then have "analyzed report \<le> 10"
      by (simp add: res analyzed_simps word_le_nat_alt)
    with Some res show ?thesis by simp
  qed
  then show "enumerate_threads g = Some (result, report) \<longrightarrow>
        (result = DEMO_ERROR_PROCESS \<longleftrightarrow> vmi_read_addr_ksym g ''PsActiveProcessHead'' = None)
        \<and> (result = DEMO_SUCCESS \<longleftrightarrow> vmi_read_addr_ksym g ''PsActiveProcessHead'' \<noteq> None)
        \<and> analyzed report \<le> 10"
    by blast
qed

text \<open>
  On \<open>guest_pointers\<close> B has kernel pointers at \<open>+0x148\<close>, \<open>+0x150\<close>, \<open>+0x1f8\<close> and
  \<open>+0x200\<close>: the two inside the range are counted, the two outside are not, and
  neither are the user-space value and the all-ones value inside the range.
\<close>

theorem thread_scan_is_bounded_heuristic_witness:
  "vmi_read_addr_ksym (Some guest_pointers) ''PsActiveProcessHead'' = Some 0x1188
   \<and> links (Some guest_pointers) [0x1188, 0x2188, 0x3188]
   \<and> vmi_read_addr_va (Some guest_pointers) 0x3188 = Some 0x1188
   \<and> vmi_read_addr_va (Some guest_pointers) 0x2148 = Some 0xfffffa8000000010
   \<and> vmi_read_addr_va (Some guest_pointers) 0x2200 = Some 0xfffffa8000000008
   \<and> enumerate_threads (Some guest_pointers) =
       Some (DEMO_SUCCESS,
             [Out_Thread_Header,
              Out_Thread_Process 300 ''smss.exe'',
              Out_Thread_Pointer 0x150 0xfffff80000000001,
              Out_Thread_Pointer 0x1f8 0xfffffa8000000000,
              Out_Thread_Estimate 2,
              Out_Thread_Process 500 ''explorer.exe'', Out_Thread_Accessible,
              Out_Thread_Total 2])
   \<and> analyzed
         [Out_Thread_Header,
          Out_Thread_Process 300 ''smss.exe'',
          Out_Thread_Pointer 0x150 0xfffff80000000001,
          Out_Thread_Pointer 0x1f8 0xfffffa8000000000,
          Out_Thread_Estimate 2,
          Out_Thread_Process 500 ''explorer.exe'', Out_Thread_Accessible,
          Out_Thread_Total 2] \<le> 10"
proof -
  have k: "vmi_read_addr_ksym (Some guest_pointers) ''PsActiveProcessHead'' = Some 0x1188"
    by (simp add: vmi_api_defs guest_defs)
  have l: "links (Some guest_pointers) [0x1188, 0x2188, 0x3188]"
    by (simp add: vmi_api_defs guest_defs)
  have c: "vmi_read_addr_va (Some guest_pointers) 0x3188 = Some 0x1188"
    by (simp add: vmi_api_defs guest_defs)
  have o: "vmi_read_addr_va (Some guest_pointers) 0x2148 = Some 0xfffffa8000000010"
          "vmi_read_addr_va (Some guest_pointers) 0x2200 = Some 0xfffffa8000000008"
    by (simp_all add: vmi_api_defs guest_defs)
  note node = thread_scan_is_bounded_heuristic [THEN conjunct1]
  from thread_scan_is_bounded_heuristic
         [where g = "Some guest_pointers" and list_head = "0x1188" and xs = "[0x2188, 0x3188]",
          THEN conjunct2, THEN conjunct1] k l c
  have e: "enumerate_threads (Some guest_pointers) =
       Some (DEMO_SUCCESS,
             [Out_Thread_Header,
              Out_Thread_Process 300 ''smss.exe'',
              Out_Thread_Pointer 0x150 0xfffff80000000001,
              Out_Thread_Pointer 0x1f8 0xfffffa8000000000,
              Out_Thread_Estimate 2,
              Out_Thread_Process 500 ''explorer.exe'', Out_Thread_Accessible,
              Out_Thread_Total 2])"
    by (simp add: node scan_hits_def pointer_line_def word_sless_alt vmi_api_defs guest_defs)
  from thread_scan_is_bounded_heuristic
         [where g = "Some guest_pointers", THEN conjunct2, THEN conjunct2, rule_format, OF e]
  have a: "analyzed
         [Out_Thread_Header,
          Out_Thread_Process 300 ''smss.exe'',
          Out_Thread_Pointer 0x150 0xfffff80000000001,
          Out_Thread_Pointer 0x1f8 0xfffffa8000000000,
          Out_Thread_Estimate 2,
          Out_Thread_Process 500 ''explorer.exe'', Out_Thread_Accessible,
          Out_Thread_Total 2] \<le> 10"
    by simp
  from k l c o e a show ?thesis by (intro conjI)
qed

section \<open>main\<close>

lemmas main_defs =
  main_def main_with_def initialize_vmi_def cleanup_and_return_def cleanup_vmi_def print_def


lemma passes_guest_abc:
  "enumerate_processes (Some guest_abc) =
     Some (DEMO_SUCCESS,
           [Out_Process_Header, Out_Process 4 ''System'' 0x1000,
            Out_Process 300 ''smss.exe'' 0x2000, Out_Process 500 ''explorer.exe'' 0x3000,
            Out_Process_Total 3])"
  "enumerate_modules (Some guest_abc) =
     Some (DEMO_SUCCESS,
           [Out_Module_Header, Out_Module_Process 300 ''smss.exe'',
            Out_Module_Process 500 ''explorer.exe'', Out_Module_Total 2])"
  "enumerate_threads (Some guest_abc) =
     Some (DEMO_SUCCESS,
           [Out_Thread_Header, Out_Thread_Process 300 ''smss.exe'', Out_Thread_Accessible,
            Out_Thread_Process 500 ''explorer.exe'', Out_Thread_Accessible, Out_Thread_Total 2])"
    apply (simp add: enumerate_processes_def process_loop.simps process_node_def vmi_api_defs guest_defs)
   apply (simp add: enumerate_modules_def module_loop.simps module_node_def vmi_api_defs guest_defs word_sless_alt)
  apply (simp add: enumerate_threads_def thread_loop.simps thread_node_def thread_probe_def vmi_api_defs guest_defs word_sless_alt)
  done

lemma main_guest_abc:
  "main [''win7-vmi'' \<mapsto> guest_abc] [''vmi_demo''] =
     Some (0, \<lparr>g_vmi = None,
               stdout =
                 [Out_Banner ''win7-vmi'', Out_Init_Ok ''win7-vmi'', Out_Starting,
                  Out_Process_Header, Out_Process 4 ''System'' 0x1000,
                  Out_Process 300 ''smss.exe'' 0x2000, Out_Process 500 ''explorer.exe'' 0x3000,
                  Out_Process_Total 3,
                  Out_Module_Header, Out_Module_Process 300 ''smss.exe'',
                  Out_Module_Process 500 ''explorer.exe'', Out_Module_Total 2,
                  Out_Thread_Header, Out_Thread_Process 300 ''smss.exe'', Out_Thread_Accessible,
                  Out_Thread_Process 500 ''explorer.exe'', Out_Thread_Accessible,
                  Out_Thread_Total 2],
               destroyed = [Some guest_abc]\<rparr>)"
  by (simp add: main_defs Let_def passes_guest_abc)

lemma main_with_releases:
  assumes "main_with process_pass module_pass thread_pass vmi_init_complete argv = Some (status, s)"
  shows "g_vmi s = None
         \<and> destroyed s =
             (case vmi_init_complete (if 1 < length argv then argv ! 1 else ''win7-vmi'') of
                None \<Rightarrow> []
              | Some vmi \<Rightarrow> [Some vmi])"
  using assms
  by (auto simp: main_with_def initialize_vmi_def cleanup_and_return_def cleanup_vmi_def
        print_def Let_def split: option.splits prod.splits if_splits)

text \<open>
  Claim C10. Whatever the three passes do, on every path on which the program returns
  (initialisation failure, a failed process, module or thread pass, or completion) the
  handle is \<^verbatim>\<open>NULL\<close> at the end, and \<^verbatim>\<open>vmi_destroy\<close> has been called exactly once, with the
  session that was opened, when one was opened, and not at all otherwise. This holds for
  the control flow of \<^verbatim>\<open>main\<close> with any passes, and so for \<^verbatim>\<open>main\<close>.
\<close>

theorem session_released_exactly_once:
  "(main_with process_pass module_pass thread_pass vmi_init_complete argv = Some (status, s) \<longrightarrow>
      g_vmi s = None
      \<and> destroyed s =
          (case vmi_init_complete (if 1 < length argv then argv ! 1 else ''win7-vmi'') of
             None \<Rightarrow> []
           | Some vmi \<Rightarrow> [Some vmi]))
   \<and> (main vmi_init_complete argv = Some (status, s) \<longrightarrow>
      g_vmi s = None
      \<and> destroyed s =
          (case vmi_init_complete (if 1 < length argv then argv ! 1 else ''win7-vmi'') of
             None \<Rightarrow> []
           | Some vmi \<Rightarrow> [Some vmi]))"
proof (intro conjI impI)
  assume "main_with process_pass module_pass thread_pass vmi_init_complete argv = Some (status, s)"
  from main_with_releases [OF this]
  show "g_vmi s = None"
    and "destroyed s =
          (case vmi_init_complete (if 1 < length argv then argv ! 1 else ''win7-vmi'') of
             None \<Rightarrow> []
           | Some vmi \<Rightarrow> [Some vmi])"
    by simp_all
next
  assume "main vmi_init_complete argv = Some (status, s)"
  then have "main_with enumerate_processes enumerate_modules enumerate_threads
               vmi_init_complete argv = Some (status, s)"
    by (simp only: main_def)
  from main_with_releases [OF this]
  show "g_vmi s = None"
    and "destroyed s =
          (case vmi_init_complete (if 1 < length argv then argv ! 1 else ''win7-vmi'') of
             None \<Rightarrow> []
           | Some vmi \<Rightarrow> [Some vmi])"
    by simp_all
qed

lemma enumerate_modules_headless:
  "enumerate_modules (Some guest_headless) =
     Some (DEMO_ERROR_PROCESS, [Out_Module_Header, Out_Head_Missing])"
  by (simp add: enumerate_modules_def vmi_api_defs guest_defs)

lemma enumerate_threads_headless:
  "enumerate_threads (Some guest_headless) =
     Some (DEMO_ERROR_PROCESS, [Out_Thread_Header, Out_Head_Missing])"
  by (simp add: enumerate_threads_def vmi_api_defs guest_defs)

lemma main_module_pass_fails:
  "main_with enumerate_processes (\<lambda>g. enumerate_modules (Some guest_headless)) enumerate_threads
     [''win7-vmi'' \<mapsto> guest_abc] [''vmi_demo''] =
     Some (1, \<lparr>g_vmi = None,
               stdout =
                 [Out_Banner ''win7-vmi'', Out_Init_Ok ''win7-vmi'', Out_Starting,
                  Out_Process_Header, Out_Process 4 ''System'' 0x1000,
                  Out_Process 300 ''smss.exe'' 0x2000, Out_Process 500 ''explorer.exe'' 0x3000,
                  Out_Process_Total 3,
                  Out_Module_Header, Out_Head_Missing, Out_Module_Failed],
               destroyed = [Some guest_abc]\<rparr>)"
  by (simp add: main_with_def initialize_vmi_def cleanup_and_return_def cleanup_vmi_def
        print_def Let_def passes_guest_abc enumerate_modules_headless)

lemma main_thread_pass_fails:
  "main_with enumerate_processes enumerate_modules (\<lambda>g. enumerate_threads (Some guest_headless))
     [''win7-vmi'' \<mapsto> guest_abc] [''vmi_demo''] =
     Some (1, \<lparr>g_vmi = None,
               stdout =
                 [Out_Banner ''win7-vmi'', Out_Init_Ok ''win7-vmi'', Out_Starting,
                  Out_Process_Header, Out_Process 4 ''System'' 0x1000,
                  Out_Process 300 ''smss.exe'' 0x2000, Out_Process 500 ''explorer.exe'' 0x3000,
                  Out_Process_Total 3,
                  Out_Module_Header, Out_Module_Process 300 ''smss.exe'',
                  Out_Module_Process 500 ''explorer.exe'', Out_Module_Total 2,
                  Out_Thread_Header, Out_Head_Missing, Out_Thread_Failed],
               destroyed = [Some guest_abc]\<rparr>)"
  by (simp add: main_with_def initialize_vmi_def cleanup_and_return_def cleanup_vmi_def
        print_def Let_def passes_guest_abc enumerate_threads_headless)

lemma main_init_fails:
  "main [''win7-vmi'' \<mapsto> guest_abc] [''vmi_demo'', ''other-vm''] =
     Some (1, \<lparr>g_vmi = None,
               stdout = [Out_Banner ''other-vm'', Out_Init_Error ''other-vm'',
                         Out_Init_Help ''other-vm''],
               destroyed = []\<rparr>)"
  by (simp add: main_defs Let_def)

text \<open>
  A complete run on \<open>guest_abc\<close> releases the session once; a run naming a domain that
  cannot be opened releases nothing; and runs in which the list head has become unreadable
  by the time of the module pass, or of the thread pass, leave through the failure of that
  pass and release the session once.
\<close>

theorem session_released_exactly_once_witness:
  "(\<exists>status s. main [''win7-vmi'' \<mapsto> guest_abc] [''vmi_demo''] = Some (status, s)
        \<and> status = 0 \<and> g_vmi s = None \<and> destroyed s = [Some guest_abc])
   \<and> (\<exists>status s. main [''win7-vmi'' \<mapsto> guest_abc] [''vmi_demo'', ''other-vm''] = Some (status, s)
        \<and> status = 1 \<and> g_vmi s = None \<and> destroyed s = [])
   \<and> (\<exists>status s.
         main_with enumerate_processes (\<lambda>g. enumerate_modules (Some guest_headless))
           enumerate_threads [''win7-vmi'' \<mapsto> guest_abc] [''vmi_demo''] = Some (status, s)
        \<and> status = 1 \<and> g_vmi s = None \<and> destroyed s = [Some guest_abc])
   \<and> (\<exists>status s.
         main_with enumerate_processes enumerate_modules
           (\<lambda>g. enumerate_threads (Some guest_headless))
           [''win7-vmi'' \<mapsto> guest_abc] [''vmi_demo''] = Some (status, s)
        \<and> status = 1 \<and> g_vmi s = None \<and> destroyed s = [Some guest_abc])"
proof -
  note t = session_released_exactly_once
  from t [THEN conjunct2, rule_format, OF main_guest_abc] main_guest_abc
  have a: "\<exists>status s. main [''win7-vmi'' \<mapsto> guest_abc] [''vmi_demo''] = Some (status, s)
        \<and> status = 0 \<and> g_vmi s = None \<and> destroyed s = [Some guest_abc]"
    by simp
  from t [THEN conjunct2, rule_format, OF main_init_fails] main_init_fails
  have b: "\<exists>status s. main [''win7-vmi'' \<mapsto> guest_abc] [''vmi_demo'', ''other-vm''] = Some (status, s)
        \<and> status = 1 \<and> g_vmi s = None \<and> destroyed s = []"
    by simp
  from t [THEN conjunct1, rule_format, OF main_module_pass_fails] main_module_pass_fails
  have c: "\<exists>status s.
         main_with enumerate_processes (\<lambda>g. enumerate_modules (Some guest_headless))
           enumerate_threads [''win7-vmi'' \<mapsto> guest_abc] [''vmi_demo''] = Some (status, s)
        \<and> status = 1 \<and> g_vmi s = None \<and> destroyed s = [Some guest_abc]"
    by simp
  from t [THEN conjunct1, rule_format, OF main_thread_pass_fails] main_thread_pass_fails
  have d: "\<exists>status s.
         main_with enumerate_processes enumerate_modules
           (\<lambda>g. enumerate_threads (Some guest_headless))
           [''win7-vmi'' \<mapsto> guest_abc] [''vmi_demo''] = Some (status, s)
        \<and> status = 1 \<and> g_vmi s = None \<and> destroyed s = [Some guest_abc]"
    by simp
  from a b c d show ?thesis by (intro conjI)
qed




section \<open>A run with a missing offset\<close>





end
